theory Spec2Isabelle
  imports Main
begin

section \<open>Counting the chunks of a vg file: \<^verbatim>\<open>vg_inspect.py\<close>\<close>

text \<open>
  The module has one function:
  \<^verbatim>\<open>
  def count_chunks(path):
      cnt = itertools.count()
      deque(zip(stream.parse(path, vg.Graph), cnt), 0)
      return next(cnt)
  \<close>
  It drives three iterators of Python's library (\<^verbatim>\<open>itertools.count\<close>, \<^verbatim>\<open>zip\<close>, the
  iterator \<^verbatim>\<open>stream.parse\<close> returns) through the constructor of \<^verbatim>\<open>collections.deque\<close>.
  An iterator is a state together with its \<^verbatim>\<open>__next__\<close>, a function from the state to the
  outcome of the call and the state after it.
\<close>

subsection \<open>The iterator protocol\<close>

text \<open>One call of \<^verbatim>\<open>__next__\<close>: an element, \<^verbatim>\<open>StopIteration\<close>, or any other exception.\<close>

datatype ('a, 'e) step = Yield 'a | StopIteration | Raise 'e

type_synonym ('s, 'a, 'e) iterator = "'s \<Rightarrow> ('a, 'e) step \<times> 's"

subsection \<open>\<^verbatim>\<open>itertools.count()\<close>\<close>

text \<open>
  The state is the next value to hand out, an unbounded Python integer starting at 0.
  \<^verbatim>\<open>next(cnt)\<close> returns it and leaves its successor behind; it never stops and never
  raises.
\<close>

definition count_new :: int where
  "count_new = 0"

definition count_next :: "int \<Rightarrow> int \<times> int" where
  "count_next c = (c, c + 1)"

definition count_step :: "(int, int, 'e) iterator" where
  "count_step c = (case count_next c of (v, c') \<Rightarrow> (Yield v, c'))"

subsection \<open>\<^verbatim>\<open>zip(a, b)\<close>\<close>

text \<open>
  \<^verbatim>\<open>zip.__next__\<close> asks its iterators from left to right. The first one that stops or
  raises ends the call at once: the iterators to its right are not asked, and what the
  ones to its left gave is dropped.
\<close>

definition zip_next ::
  "('s, 'a, 'e) iterator \<Rightarrow> ('t, 'b, 'e) iterator \<Rightarrow> ('s \<times> 't, 'a \<times> 'b, 'e) iterator" where
  "zip_next nxt1 nxt2 st =
     (case st of (s, t) \<Rightarrow>
        (case nxt1 s of
           (Yield a, s') \<Rightarrow>
             (case nxt2 t of
                (Yield b, t') \<Rightarrow> (Yield (a, b), (s', t'))
              | (StopIteration, t') \<Rightarrow> (StopIteration, (s', t'))
              | (Raise e, t') \<Rightarrow> (Raise e, (s', t')))
         | (StopIteration, s') \<Rightarrow> (StopIteration, (s', t))
         | (Raise e, s') \<Rightarrow> (Raise e, (s', t))))"

subsection \<open>\<^verbatim>\<open>deque(iterable, maxlen)\<close>\<close>

text \<open>
  Appending to a bounded deque that is full discards an element from the left end.
  The constructor appends every element the iterable gives, until the iterable stops
  (the deque is built) or raises (the exception leaves the constructor).
  The loop runs for as long as the iterable yields: on an iterable that never ends it
  does not return, which is the value \<open>None\<close> here.
\<close>

definition deque_append :: "nat option \<Rightarrow> 'a list \<Rightarrow> 'a \<Rightarrow> 'a list" where
  "deque_append maxlen d a =
     (let d' = d @ [a] in
      case maxlen of
        None \<Rightarrow> d'
      | Some m \<Rightarrow> if length d' > m then tl d' else d')"

partial_function (option) deque_extend ::
  "nat option \<Rightarrow> ('s, 'a, 'e) iterator \<Rightarrow> 'a list \<Rightarrow> 's \<Rightarrow> ('e option \<times> 'a list \<times> 's) option" where
  "deque_extend maxlen nxt d s =
     (case nxt s of
        (Yield a, s') \<Rightarrow> deque_extend maxlen nxt (deque_append maxlen d a) s'
      | (StopIteration, s') \<Rightarrow> Some (None, d, s')
      | (Raise e, s') \<Rightarrow> Some (Some e, d, s'))"

declare deque_extend.simps [code]

subsection \<open>The collaborator: \<^verbatim>\<open>stream.parse\<close> and \<^verbatim>\<open>vg_pb2\<close>\<close>

text \<open>
  Neither module is part of the source tree. \<^verbatim>\<open>vg_pb2\<close> holds the message classes
  generated from the vg schema; the source names one of them, \<^verbatim>\<open>vg.Graph\<close>, and every
  other class is told apart by its name.
\<close>

type_synonym path = string

datatype pb_cls = Graph | Other string

text \<open>
  \<^verbatim>\<open>stream.parse(path, cls)\<close> is taken as a parameter, in two parts: \<open>parse\<close> gives the
  state of the iterator the call returns, in the world \<open>'w\<close> the call is made in, and
  \<open>nxt\<close> is the \<^verbatim>\<open>__next__\<close> of that iterator. The state \<open>'s\<close> holds whatever the
  iterator acts on, so that its effects are visible in the state after the run. A
  collaborator that raises at the call itself, and not at the first \<^verbatim>\<open>__next__\<close>, is a
  start state whose first step is \<open>Raise\<close>: either way the exception leaves
  \<^verbatim>\<open>count_chunks\<close> before \<^verbatim>\<open>zip\<close> has produced anything.
\<close>

type_synonym ('w, 's) parser = "path \<Rightarrow> pb_cls \<Rightarrow> 'w \<Rightarrow> 's"

subsection \<open>\<^verbatim>\<open>count_chunks\<close>\<close>

text \<open>
  \<open>count_chunks_body\<close> is the body of the function, line by line, with what the function
  holds when it exits: the outcome (\<open>Inl\<close> the exception that leaves the call, \<open>Inr\<close> the
  integer returned), the deque the constructor built (the source drops it unnamed), the
  state of \<^verbatim>\<open>cnt\<close> after the drain and before \<^verbatim>\<open>next(cnt)\<close>, and the state the
  collaborator's iterator is left in. \<open>None\<close> is a call that does not return.
  \<open>count_chunks_run\<close> is what a caller can observe of it, the outcome and the
  collaborator's state, and \<open>count_chunks\<close> is the outcome alone.
\<close>

record ('e, 'm, 's) at_exit =
  outcome :: "'e + int"
  deque_left :: "('m \<times> int) list"
  cnt_drained :: int
  stream_left :: 's

definition count_chunks_body ::
  "('w, 's) parser \<Rightarrow> ('s, 'm, 'e) iterator \<Rightarrow> path \<Rightarrow> 'w \<Rightarrow> ('e, 'm, 's) at_exit option" where
  "count_chunks_body parse nxt path w =
     (let cnt = count_new in
      case deque_extend (Some 0) (zip_next nxt count_step) [] (parse path Graph w, cnt) of
        None \<Rightarrow> None
      | Some (Some e, d, (s, cnt')) \<Rightarrow>
          Some \<lparr>outcome = Inl e, deque_left = d, cnt_drained = cnt', stream_left = s\<rparr>
      | Some (None, d, (s, cnt')) \<Rightarrow>
          Some \<lparr>outcome = Inr (fst (count_next cnt')), deque_left = d, cnt_drained = cnt',
                stream_left = s\<rparr>)"

definition count_chunks_run ::
  "('w, 's) parser \<Rightarrow> ('s, 'm, 'e) iterator \<Rightarrow> path \<Rightarrow> 'w \<Rightarrow> (('e + int) \<times> 's) option" where
  "count_chunks_run parse nxt path w =
     map_option (\<lambda>x. (outcome x, stream_left x)) (count_chunks_body parse nxt path w)"

definition count_chunks ::
  "('w, 's) parser \<Rightarrow> ('s, 'm, 'e) iterator \<Rightarrow> path \<Rightarrow> 'w \<Rightarrow> ('e + int) option" where
  "count_chunks parse nxt path w = map_option fst (count_chunks_run parse nxt path w)"

subsection \<open>What an iterator produces\<close>

text \<open>
  \<open>produces nxt s n r s'\<close>: asked again and again from state \<open>s\<close>, the iterator yields
  exactly \<open>n\<close> elements and then ends in state \<open>s'\<close>, cleanly (\<open>r = None\<close>) or with the
  exception \<open>e\<close> (\<open>r = Some e\<close>). A finite stream is one that produces some \<open>n\<close>.
\<close>

inductive produces :: "('s, 'a, 'e) iterator \<Rightarrow> 's \<Rightarrow> nat \<Rightarrow> 'e option \<Rightarrow> 's \<Rightarrow> bool"
  for nxt :: "('s, 'a, 'e) iterator" where
  produces_stop: "nxt s = (StopIteration, s') \<Longrightarrow> produces nxt s 0 None s'"
| produces_raise: "nxt s = (Raise e, s') \<Longrightarrow> produces nxt s 0 (Some e) s'"
| produces_yield:
    "nxt s = (Yield a, s') \<Longrightarrow> produces nxt s' n r s'' \<Longrightarrow> produces nxt s (Suc n) r s''"

code_pred produces .

text \<open>
  The plain loop of the specification, in its words: advance the sequence to the end,
  incrementing a scalar counter once per element produced, and return the counter; an
  exception of the sequence leaves the loop.
\<close>

partial_function (option) plain_loop_count ::
  "('s, 'a, 'e) iterator \<Rightarrow> int \<Rightarrow> 's \<Rightarrow> ('e + int) option" where
  "plain_loop_count nxt counter s =
     (case nxt s of
        (Yield a, s') \<Rightarrow> plain_loop_count nxt (counter + 1) s'
      | (StopIteration, s') \<Rightarrow> Some (Inr counter)
      | (Raise e, s') \<Rightarrow> Some (Inl e))"

declare plain_loop_count.simps [code]

text \<open>
  A concrete iterator for examples: it replays a fixed list of outcomes, and is finished
  once it has stopped or raised, as a Python generator is.
\<close>

fun replay_next :: "(('a, 'e) step list, 'a, 'e) iterator" where
  "replay_next [] = (StopIteration, [])"
| "replay_next (Yield a # xs) = (Yield a, xs)"
| "replay_next (StopIteration # xs) = (StopIteration, [])"
| "replay_next (Raise e # xs) = (Raise e, [])"

fun yields :: "('a, 'e) step list \<Rightarrow> nat" where
  "yields (Yield a # xs) = Suc (yields xs)"
| "yields _ = 0"

fun ending :: "('a, 'e) step list \<Rightarrow> 'e option" where
  "ending (Yield a # xs) = ending xs"
| "ending (Raise e # xs) = Some e"
| "ending _ = None"

subsection \<open>The streaming decoder, from the specification\<close>

text \<open>
  Modelled from the spec: the two error kinds of the decoder, \<^verbatim>\<open>FileError\<close> (the path
  is missing or unreadable) and \<^verbatim>\<open>DecodeError\<close> (a record cannot be parsed as the
  message type, or the framing is corrupt). The library that raises them is not part
  of the source tree.
\<close>

datatype error = FileError | DecodeError

text \<open>
  Modelled from the spec: the world the decoder acts on. \<open>files\<close> maps the paths that
  name an existing readable file to its contents, a sequence of length-delimited
  records (the framing itself belongs to the decoder and is not described, so a file is
  the list of its records' bytes); \<open>open_handles\<close> counts the file handles open now and
  \<open>opened\<close> the handles opened so far.
\<close>

type_synonym frame = string

record world =
  files :: "path \<rightharpoonup> frame list"
  open_handles :: nat
  opened :: nat

definition acquire :: "world \<Rightarrow> world" where
  "acquire w = w\<lparr>open_handles := open_handles w + 1, opened := opened w + 1\<rparr>"

definition release :: "world \<Rightarrow> world" where
  "release w = w\<lparr>open_handles := open_handles w - 1\<rparr>"

text \<open>
  Modelled from the spec: the iterator \<^verbatim>\<open>open_stream(path, message_type)\<close> of the
  external decoder, which stands for \<^verbatim>\<open>stream.parse\<close>. It is lazy: nothing happens
  before the first element is asked for. Then it fails with \<^verbatim>\<open>FileError\<close> when the path
  does not name a readable file, and opens one handle otherwise; it produces the
  records one at a time, each decoded as the message type by \<open>decode\<close> (a parameter:
  \<open>None\<close> is a record that cannot be parsed as that type), raises \<^verbatim>\<open>DecodeError\<close> at a
  record that cannot be parsed, and terminates cleanly at end of file. The handle is
  held by scoped acquisition: it is released on every exit, clean or not. The iterator
  never writes.
\<close>

datatype gen = Fresh path pb_cls | Reading pb_cls "frame list" | Finished

definition open_stream :: "(world, gen \<times> world) parser" where
  "open_stream path cls w = (Fresh path cls, w)"

fun read_record ::
  "(pb_cls \<Rightarrow> frame \<Rightarrow> 'm option) \<Rightarrow> pb_cls \<Rightarrow> frame list \<Rightarrow> world \<Rightarrow>
     ('m, error) step \<times> (gen \<times> world)" where
  "read_record decode cls [] w = (StopIteration, (Finished, release w))"
| "read_record decode cls (b # bs) w =
     (case decode cls b of
        None \<Rightarrow> (Raise DecodeError, (Finished, release w))
      | Some m \<Rightarrow> (Yield m, (Reading cls bs, w)))"

fun open_stream_next ::
  "(pb_cls \<Rightarrow> frame \<Rightarrow> 'm option) \<Rightarrow> (gen \<times> world, 'm, error) iterator" where
  "open_stream_next decode (Fresh path cls, w) =
     (case files w path of
        None \<Rightarrow> (Raise FileError, (Finished, w))
      | Some frames \<Rightarrow> read_record decode cls frames (acquire w))"
| "open_stream_next decode (Reading cls frames, w) = read_record decode cls frames w"
| "open_stream_next decode (Finished, w) = (StopIteration, (Finished, w))"

text \<open>
  What the decoder makes of the records of a file: how many it decodes before it ends,
  and how it ends.
\<close>

fun decoded :: "(pb_cls \<Rightarrow> frame \<Rightarrow> 'm option) \<Rightarrow> pb_cls \<Rightarrow> frame list \<Rightarrow> nat" where
  "decoded decode cls [] = 0"
| "decoded decode cls (b # bs) =
     (case decode cls b of None \<Rightarrow> 0 | Some m \<Rightarrow> Suc (decoded decode cls bs))"

fun decode_end :: "(pb_cls \<Rightarrow> frame \<Rightarrow> 'm option) \<Rightarrow> pb_cls \<Rightarrow> frame list \<Rightarrow> error option" where
  "decode_end decode cls [] = None"
| "decode_end decode cls (b # bs) =
     (case decode cls b of None \<Rightarrow> Some DecodeError | Some m \<Rightarrow> decode_end decode cls bs)"

text \<open>The outcome of \<^verbatim>\<open>count_chunks\<close> on a path, as the specification describes it.\<close>

definition expected :: "(pb_cls \<Rightarrow> frame \<Rightarrow> 'm option) \<Rightarrow> world \<Rightarrow> path \<Rightarrow> error + int" where
  "expected decode w path =
     (case files w path of
        None \<Rightarrow> Inl FileError
      | Some frames \<Rightarrow>
          (case decode_end decode Graph frames of
             None \<Rightarrow> Inr (int (decoded decode Graph frames))
           | Some e \<Rightarrow> Inl e))"

text \<open>A decoder for examples: a record parses as the class whose name it starts with.\<close>

fun cls_name :: "pb_cls \<Rightarrow> string" where
  "cls_name Graph = ''Graph''"
| "cls_name (Other n) = n"

definition tagged_decode :: "pb_cls \<Rightarrow> frame \<Rightarrow> frame option" where
  "tagged_decode cls b = (if take (length (cls_name cls)) b = cls_name cls then Some b else None)"

subsection \<open>Example inputs\<close>

text \<open>
  A collaborator that replays the outcomes its world lists for a path and a message
  class, and one that decodes every file as \<open>Graph\<close> whatever class it is asked for.
\<close>

definition replay_parse :: "(path \<Rightarrow> pb_cls \<Rightarrow> ('a, 'e) step list, ('a, 'e) step list) parser" where
  "replay_parse path cls w = w path cls"

definition graph_only_parse ::
  "(path \<Rightarrow> pb_cls \<Rightarrow> ('a, 'e) step list, ('a, 'e) step list) parser" where
  "graph_only_parse path cls w = w path Graph"

definition example_streams :: "path \<Rightarrow> pb_cls \<Rightarrow> (string, error) step list" where
  "example_streams path cls =
     (if path = ''graph.vg'' then
        (if cls = Graph then [Yield ''g1'', Yield ''g2'', Yield ''g3''] else [Raise DecodeError])
      else if path = ''empty.vg'' then []
      else if path = ''corrupt.vg'' then [Yield ''g1'', Yield ''g2'', Raise DecodeError]
      else [Raise FileError])"

definition example_fs :: world where
  "example_fs =
     \<lparr>files = [''graph.vg'' \<mapsto> [''Graph:a'', ''Graph:b'', ''Graph:c''],
               ''corrupt.vg'' \<mapsto> [''Graph:a'', ''junk'']],
      open_handles = 0, opened = 0\<rparr>"

section \<open>Properties\<close>

subsection \<open>Draining the zipped pair\<close>

text \<open>
  With the counter as the second iterator of \<^verbatim>\<open>zip\<close>, every element of the stream
  advances the counter once, and the end of the stream does not advance it.
\<close>

lemma deque_append_zero: "deque_append (Some 0) [] a = []"
  by (simp add: deque_append_def)

lemma zip_count_yield:
  "nxt s = (Yield a, s') \<Longrightarrow> zip_next nxt count_step (s, c) = (Yield (a, c), (s', c + 1))"
  by (simp add: zip_next_def count_step_def count_next_def)

lemma zip_count_stop:
  "nxt s = (StopIteration, s') \<Longrightarrow> zip_next nxt count_step (s, c) = (StopIteration, (s', c))"
  by (simp add: zip_next_def)

lemma zip_count_raise:
  "nxt s = (Raise e, s') \<Longrightarrow> zip_next nxt count_step (s, c) = (Raise e, (s', c))"
  by (simp add: zip_next_def)

lemma deque_zip_count:
  "produces nxt s n r s' \<Longrightarrow>
   deque_extend (Some 0) (zip_next nxt count_step) [] (s, c) = Some (r, [], (s', c + int n))"
proof (induction arbitrary: c rule: produces.induct)
  case (produces_stop s s')
  then show ?case
    by (subst deque_extend.simps) (simp add: zip_count_stop)
next
  case (produces_raise s e s')
  then show ?case
    by (subst deque_extend.simps) (simp add: zip_count_raise)
next
  case (produces_yield s a s' n r s'')
  have "deque_extend (Some 0) (zip_next nxt count_step) [] (s, c) =
        deque_extend (Some 0) (zip_next nxt count_step) [] (s', c + 1)"
    using produces_yield.hyps(1)
    by (subst deque_extend.simps) (simp add: zip_count_yield deque_append_zero)
  then show ?case
    using produces_yield.IH [of "c + 1"] by simp
qed

lemma zip_count_first_aux:
  "produces nxt s n r s' \<Longrightarrow> r = None \<Longrightarrow>
   deque_extend (Some 0) (zip_next count_step nxt) [] (c, s) = Some (None, [], (c + int n + 1, s'))"
proof (induction arbitrary: c rule: produces.induct)
  case (produces_stop s s')
  then show ?case
    by (subst deque_extend.simps) (simp add: zip_next_def count_step_def count_next_def)
next
  case (produces_raise s e s')
  then show ?case by simp
next
  case (produces_yield s a s' n r s'')
  have "deque_extend (Some 0) (zip_next count_step nxt) [] (c, s) =
        deque_extend (Some 0) (zip_next count_step nxt) [] (c + 1, s')"
    using produces_yield.hyps(1)
    by (subst deque_extend.simps)
      (simp add: zip_next_def count_step_def count_next_def deque_append_zero)
  then show ?case
    using produces_yield.IH [OF produces_yield.prems, of "c + 1"] by simp
qed

text \<open>
  The converse, by the induction rule of the loop: whenever the drain returns, the stream
  has produced some number of elements and the counter has advanced by that number.
\<close>

lemma deque_zip_returns:
  fixes nxt :: "('s, 'a, 'e) iterator"
  assumes "deque_extend maxlen znxt d st = Some res"
  shows "znxt = zip_next nxt count_step \<longrightarrow>
    (\<exists>n. produces nxt (fst st) n (fst res) (fst (snd (snd res))) \<and>
         snd (snd (snd res)) = snd st + int n)"
proof (rule deque_extend.raw_induct
    [where P = "\<lambda>maxlen znxt d st res. znxt = zip_next nxt count_step \<longrightarrow>
      (\<exists>n. produces nxt (fst st) n (fst res) (fst (snd (snd res))) \<and>
           snd (snd (snd res)) = snd st + int n)", OF _ assms])
  fix f
    and maxlen znxt d st res
  assume IH: "\<And>znxt d st b y. f znxt d st b = Some y \<Longrightarrow>
      d = zip_next nxt count_step \<longrightarrow>
      (\<exists>n. produces nxt (fst b) n (fst y) (fst (snd (snd y))) \<and>
           snd (snd (snd y)) = snd b + int n)"
    and step: "(case znxt st of
        (Yield a, s') \<Rightarrow> f maxlen znxt (deque_append maxlen d a) s'
      | (StopIteration, s') \<Rightarrow> Some (None, d, s')
      | (Raise e, s') \<Rightarrow> Some (Some e, d, s')) = Some res"
  show "znxt = zip_next nxt count_step \<longrightarrow>
      (\<exists>n. produces nxt (fst st) n (fst res) (fst (snd (snd res))) \<and>
           snd (snd (snd res)) = snd st + int n)"
  proof
    assume z: "znxt = zip_next nxt count_step"
    obtain s c where st: "st = (s, c)" by (cases st)
    obtain o1 s1 where n1: "nxt s = (o1, s1)" by (cases "nxt s")
    show "\<exists>n. produces nxt (fst st) n (fst res) (fst (snd (snd res))) \<and>
           snd (snd (snd res)) = snd st + int n"
    proof (cases o1)
      case (Yield a)
      with step z st n1 have "f maxlen znxt (deque_append maxlen d (a, c)) (s1, c + 1) = Some res"
        by (simp add: zip_next_def count_step_def count_next_def)
      from IH [OF this] z obtain n where
        "produces nxt s1 n (fst res) (fst (snd (snd res)))" "snd (snd (snd res)) = c + 1 + int n"
        by auto
      with n1 Yield st have "produces nxt (fst st) (Suc n) (fst res) (fst (snd (snd res))) \<and>
           snd (snd (snd res)) = snd st + int (Suc n)"
        by (auto intro: produces_yield)
      then show ?thesis ..
    next
      case StopIteration
      with step z st n1 have "res = (None, d, (s1, c))"
        by (simp add: zip_next_def)
      with n1 StopIteration st have "produces nxt (fst st) 0 (fst res) (fst (snd (snd res))) \<and>
           snd (snd (snd res)) = snd st + int 0"
        by (auto intro: produces_stop)
      then show ?thesis ..
    next
      case (Raise e)
      with step z st n1 have "res = (Some e, d, (s1, c))"
        by (simp add: zip_next_def)
      with n1 Raise st have "produces nxt (fst st) 0 (fst res) (fst (snd (snd res))) \<and>
           snd (snd (snd res)) = snd st + int 0"
        by (auto intro: produces_raise)
      then show ?thesis ..
    qed
  qed
qed

text \<open>The run, unfolded: the outcome and the collaborator's state of each exit.\<close>

lemma count_chunks_run_unfold:
  "count_chunks_run parse nxt path w =
     (case deque_extend (Some 0) (zip_next nxt count_step) [] (parse path Graph w, count_new) of
        None \<Rightarrow> None
      | Some (Some e, d, (s, cnt')) \<Rightarrow> Some (Inl e, s)
      | Some (None, d, (s, cnt')) \<Rightarrow> Some (Inr (fst (count_next cnt')), s))"
  by (simp add: count_chunks_run_def count_chunks_body_def split: option.splits)

lemma count_chunks_body_produces:
  assumes "produces nxt (parse path Graph w) n r s'"
  shows "count_chunks_body parse nxt path w =
           Some \<lparr>outcome = (case r of None \<Rightarrow> Inr (int n) | Some e \<Rightarrow> Inl e),
                 deque_left = [], cnt_drained = int n, stream_left = s'\<rparr>"
  using deque_zip_count [of nxt "parse path Graph w" n r s' count_new] assms
  by (simp add: count_chunks_body_def count_new_def count_next_def split: option.splits)

lemma count_chunks_run_produces:
  assumes "produces nxt (parse path Graph w) n r s'"
  shows "count_chunks_run parse nxt path w =
           Some (case r of None \<Rightarrow> Inr (int n) | Some e \<Rightarrow> Inl e, s')"
  using deque_zip_count [of nxt "parse path Graph w" n r s' count_new] assms
  by (simp add: count_chunks_run_unfold count_new_def count_next_def split: option.splits)

lemma count_chunks_produces:
  assumes "produces nxt (parse path Graph w) n r s'"
  shows "count_chunks parse nxt path w = Some (case r of None \<Rightarrow> Inr (int n) | Some e \<Rightarrow> Inl e)"
  using count_chunks_run_produces [of nxt parse path w n r s'] assms by (simp add: count_chunks_def)

lemma plain_loop_produces:
  "produces nxt s n r s' \<Longrightarrow>
   plain_loop_count nxt k s = Some (case r of None \<Rightarrow> Inr (k + int n) | Some e \<Rightarrow> Inl e)"
proof (induction arbitrary: k rule: produces.induct)
  case (produces_stop s s')
  then show ?case by (subst plain_loop_count.simps) simp
next
  case (produces_raise s e s')
  then show ?case by (subst plain_loop_count.simps) simp
next
  case (produces_yield s a s' n r s'')
  have "plain_loop_count nxt k s = plain_loop_count nxt (k + 1) s'"
    using produces_yield.hyps(1) by (subst plain_loop_count.simps) simp
  then show ?case
    using produces_yield.IH [of "k + 1"] by (simp add: algebra_simps split: option.splits)
qed

subsection \<open>The concrete iterators\<close>

lemma replay_produces: "produces replay_next xs (yields xs) (ending xs) []"
proof (induction xs)
  case Nil
  show ?case by (simp add: produces_stop)
next
  case (Cons x xs)
  show ?case
  proof (cases x)
    case (Yield a)
    have "replay_next (Yield a # xs) = (Yield a, xs)" by simp
    from produces_yield [where nxt = replay_next, OF this Cons] Yield show ?thesis by simp
  next
    case StopIteration
    then show ?thesis by (simp add: produces_stop)
  next
    case (Raise e)
    then show ?thesis by (simp add: produces_raise)
  qed
qed

lemma reading_produces:
  "produces (open_stream_next decode) (Reading cls frames, w)
     (decoded decode cls frames) (decode_end decode cls frames) (Finished, release w)"
proof (induction frames)
  case Nil
  show ?case by (simp add: produces_stop)
next
  case (Cons b bs)
  show ?case
  proof (cases "decode cls b")
    case None
    then show ?thesis by (simp add: produces_raise)
  next
    case (Some m)
    then have "open_stream_next decode (Reading cls (b # bs), w) = (Yield m, (Reading cls bs, w))"
      by simp
    from produces_yield [where nxt = "open_stream_next decode",
        OF this Cons] Some show ?thesis by simp
  qed
qed

lemma release_acquire: "release (acquire w) = w\<lparr>opened := opened w + 1\<rparr>"
  by (simp add: release_def acquire_def)

lemma fresh_missing:
  "files w path = None \<Longrightarrow>
   produces (open_stream_next decode) (open_stream path cls w) 0 (Some FileError) (Finished, w)"
  by (simp add: open_stream_def produces_raise)

lemma fresh_readable:
  assumes "files w path = Some frames"
  shows "produces (open_stream_next decode) (open_stream path cls w)
     (decoded decode cls frames) (decode_end decode cls frames)
     (Finished, w\<lparr>opened := opened w + 1\<rparr>)"
proof (cases frames)
  case Nil
  with assms show ?thesis
    by (simp add: open_stream_def produces_stop release_acquire)
next
  case (Cons b bs)
  show ?thesis
  proof (cases "decode cls b")
    case None
    with assms Cons show ?thesis
      by (simp add: open_stream_def produces_raise release_acquire)
  next
    case (Some m)
    with assms Cons have
      "open_stream_next decode (open_stream path cls w) = (Yield m, (Reading cls bs, acquire w))"
      by (simp add: open_stream_def)
    from produces_yield [where nxt = "open_stream_next decode",
        OF this reading_produces [of decode cls bs "acquire w"]] Cons Some
    show ?thesis by (simp add: release_acquire)
  qed
qed

lemma open_stream_run:
  "count_chunks_run open_stream (open_stream_next decode) path w =
     Some (expected decode w path,
           (Finished, case files w path of None \<Rightarrow> w | Some frames \<Rightarrow> w\<lparr>opened := opened w + 1\<rparr>))"
proof (cases "files w path")
  case None
  from count_chunks_run_produces [of "open_stream_next decode" open_stream path w,
        OF fresh_missing [OF None, of decode Graph]] None
  show ?thesis by (simp add: expected_def)
next
  case (Some frames)
  from count_chunks_run_produces [of "open_stream_next decode" open_stream path w,
        OF fresh_readable [OF Some, of decode Graph]] Some
  show ?thesis by (simp add: expected_def)
qed

subsection \<open>The example streams\<close>

lemma ex_graph: "produces replay_next (replay_parse ''graph.vg'' Graph example_streams) 3 None []"
  using replay_produces [of "[Yield ''g1'', Yield ''g2'', Yield ''g3''] :: (string, error) step list"]
  by (simp add: replay_parse_def example_streams_def numeral_3_eq_3)

lemma ex_empty: "produces replay_next (replay_parse ''empty.vg'' Graph example_streams) 0 None []"
  using replay_produces [of "[] :: (string, error) step list"]
  by (simp add: replay_parse_def example_streams_def)

lemma ex_corrupt:
  "produces replay_next (replay_parse ''corrupt.vg'' Graph example_streams) 2 (Some DecodeError) []"
  using replay_produces [of "[Yield ''g1'', Yield ''g2'', Raise DecodeError] :: (string, error) step list"]
  by (simp add: replay_parse_def example_streams_def numeral_2_eq_2)

lemma ex_alignment:
  "produces replay_next (replay_parse ''graph.vg'' (Other ''Alignment'') example_streams) 0
     (Some DecodeError) []"
  using replay_produces [of "[Raise DecodeError] :: (string, error) step list"]
  by (simp add: replay_parse_def example_streams_def)

subsection \<open>The count\<close>

text \<open>
  Claim C1. For every well-formed input file holding exactly \<open>n\<close> records of the target
  message type, \<^verbatim>\<open>count_chunks\<close> returns \<open>n\<close>; the empty file gives 0. A well-formed
  file is one on which the decoder's stream produces its \<open>n\<close> records and then ends
  cleanly.
\<close>

theorem count_chunks_counts_records:
  assumes "produces nxt (parse path Graph w) n None s'"
  shows "count_chunks parse nxt path w = Some (Inr (int n))"
  using count_chunks_run_produces [of nxt parse path w n None s'] assms
  by (simp add: count_chunks_def)

theorem count_chunks_counts_records_witness:
  "produces replay_next (replay_parse ''graph.vg'' Graph example_streams) 3 None [] \<and>
   count_chunks replay_parse replay_next ''graph.vg'' example_streams = Some (Inr 3) \<and>
   produces replay_next (replay_parse ''empty.vg'' Graph example_streams) 0 None [] \<and>
   count_chunks replay_parse replay_next ''empty.vg'' example_streams = Some (Inr 0)"
  using count_chunks_counts_records [where nxt = replay_next and parse = replay_parse
      and path = "''graph.vg''" and w = example_streams,
      OF ex_graph]
    count_chunks_counts_records [where nxt = replay_next and parse = replay_parse
        and path = "''empty.vg''" and w = example_streams,
        OF ex_empty]
    ex_graph ex_empty
  by simp

text \<open>
  Claim C2, as stated: the message type is a second input, supplied by the caller, and
  each record is decoded as that type. The source takes the path alone. On
  \<^verbatim>\<open>graph.vg\<close> it returns 3, the count of the records decoded as \<open>Graph\<close>, although the
  stream decoded as \<open>Alignment\<close>, counted by the plain loop, fails with
  \<^verbatim>\<open>DecodeError\<close>: no caller can ask for that.
\<close>

theorem count_chunks_message_type_counterexample:
  "count_chunks replay_parse replay_next ''graph.vg'' example_streams = Some (Inr 3) \<and>
   plain_loop_count replay_next 0 (replay_parse ''graph.vg'' (Other ''Alignment'') example_streams)
     = Some (Inl DecodeError) \<and>
   count_chunks replay_parse replay_next ''graph.vg'' example_streams \<noteq>
   plain_loop_count replay_next 0 (replay_parse ''graph.vg'' (Other ''Alignment'') example_streams)"
  using count_chunks_produces [where nxt = replay_next and parse = replay_parse
      and path = "''graph.vg''" and w = example_streams,
      OF ex_graph] plain_loop_produces [OF ex_alignment, of 0]
  by simp

text \<open>
  Claim C2, amended. \<^verbatim>\<open>count_chunks\<close> is a function of one input, the path: the message
  type is fixed to \<open>Graph\<close> inside it, so two collaborators that decode the path as
  \<open>Graph\<close> alike give the same outcome whatever they do with other types; and an
  integer it returns is non-negative.
\<close>

theorem count_chunks_message_type_fixed:
  assumes "parse1 path Graph w = parse2 path Graph w"
  shows "count_chunks parse1 nxt path w = count_chunks parse2 nxt path w \<and>
         (\<forall>k. count_chunks parse1 nxt path w = Some (Inr k) \<longrightarrow> 0 \<le> k)"
proof
  show "count_chunks parse1 nxt path w = count_chunks parse2 nxt path w"
    using assms by (simp add: count_chunks_def count_chunks_run_unfold)
  show "\<forall>k. count_chunks parse1 nxt path w = Some (Inr k) \<longrightarrow> 0 \<le> k"
  proof (intro allI impI)
    fix k
    assume "count_chunks parse1 nxt path w = Some (Inr k)"
    then obtain d s' c' where
      run: "deque_extend (Some 0) (zip_next nxt count_step) [] (parse1 path Graph w, count_new)
              = Some (None, d, (s', c'))" and k: "k = c'"
      by (auto simp: count_chunks_def count_chunks_run_unfold count_next_def
          split: option.splits)
    from deque_zip_returns [OF run, of nxt] obtain n where "c' = count_new + int n"
      by auto
    with k show "0 \<le> k" by (simp add: count_new_def)
  qed
qed

theorem count_chunks_message_type_fixed_witness:
  "replay_parse ''graph.vg'' Graph example_streams = graph_only_parse ''graph.vg'' Graph example_streams \<and>
   count_chunks replay_parse replay_next ''graph.vg'' example_streams = Some (Inr 3) \<and>
   count_chunks graph_only_parse replay_next ''graph.vg'' example_streams = Some (Inr 3) \<and>
   (0::int) \<le> 3"
proof -
  have h: "replay_parse ''graph.vg'' Graph example_streams
         = graph_only_parse ''graph.vg'' Graph example_streams"
    by (simp add: replay_parse_def graph_only_parse_def)
  from count_chunks_message_type_fixed [where ?parse1.0 = replay_parse and ?parse2.0 = graph_only_parse
      and path = "''graph.vg''" and w = example_streams and nxt = replay_next,
      OF h] count_chunks_produces [where nxt = replay_next and parse = replay_parse
      and path = "''graph.vg''" and w = example_streams,
      OF ex_graph] h
  show ?thesis by simp
qed

text \<open>
  Claim C3. On every finite stream, the \<^verbatim>\<open>zip\<close>/\<^verbatim>\<open>deque\<close>/\<^verbatim>\<open>itertools.count\<close> idiom of
  \<^verbatim>\<open>count_chunks\<close> computes what a plain loop computes that increments a scalar
  counter once per element the stream produces.
\<close>

theorem count_idiom_equals_plain_loop:
  assumes "produces nxt (parse path Graph w) n r s'"
  shows "count_chunks parse nxt path w = plain_loop_count nxt 0 (parse path Graph w)"
  using count_chunks_produces [of nxt parse path w n r s']
    plain_loop_produces [of nxt "parse path Graph w" n r s' 0] assms
  by (simp split: option.splits)

theorem count_idiom_equals_plain_loop_witness:
  "produces replay_next (replay_parse ''corrupt.vg'' Graph example_streams) 2 (Some DecodeError) [] \<and>
   count_chunks replay_parse replay_next ''corrupt.vg'' example_streams =
   plain_loop_count replay_next 0 (replay_parse ''corrupt.vg'' Graph example_streams) \<and>
   produces replay_next (replay_parse ''graph.vg'' Graph example_streams) 3 None [] \<and>
   plain_loop_count replay_next 0 (replay_parse ''graph.vg'' Graph example_streams) = Some (Inr 3) \<and>
   count_chunks replay_parse replay_next ''graph.vg'' example_streams = Some (Inr 3)"
  using count_idiom_equals_plain_loop [where nxt = replay_next and parse = replay_parse
      and path = "''corrupt.vg''" and w = example_streams,
      OF ex_corrupt]
    count_idiom_equals_plain_loop [where nxt = replay_next and parse = replay_parse
        and path = "''graph.vg''" and w = example_streams,
        OF ex_graph]
    plain_loop_produces [OF ex_graph, of 0] ex_corrupt ex_graph
  by simp

text \<open>
  Claim C4. When \<^verbatim>\<open>count_chunks\<close> fails it returns no partial count: on a stream that
  produces \<open>n\<close> records, the call either completes with the full count \<open>n\<close> or raises,
  without a number, the very exception the decoder raised, however many records were
  decoded before it.
\<close>

theorem count_chunks_no_partial_count:
  assumes "produces nxt (parse path Graph w) n r s'"
  shows "count_chunks parse nxt path w =
           Some (case r of None \<Rightarrow> Inr (int n) | Some e \<Rightarrow> Inl e)"
  using count_chunks_run_produces [of nxt parse path w n r s'] assms
  by (simp add: count_chunks_def)

theorem count_chunks_no_partial_count_witness:
  "produces replay_next (replay_parse ''corrupt.vg'' Graph example_streams) 2 (Some DecodeError) [] \<and>
   count_chunks replay_parse replay_next ''corrupt.vg'' example_streams = Some (Inl DecodeError)"
  using count_chunks_no_partial_count [where nxt = replay_next and parse = replay_parse
      and path = "''corrupt.vg''" and w = example_streams,
      OF ex_corrupt] ex_corrupt
  by simp

text \<open>
  Claim C8. Whenever \<^verbatim>\<open>count_chunks\<close> returns, the result is a non-negative integer,
  the number of records the stream of this call decoded before it ended cleanly. The
  counter starts afresh in every call (\<open>count_new\<close>), and nothing but the stream enters
  the result.
\<close>

theorem count_chunks_returns_count:
  assumes "count_chunks parse nxt path w = Some (Inr k)"
  shows "0 \<le> k \<and> (\<exists>s'. produces nxt (parse path Graph w) (nat k) None s')"
proof -
  from assms obtain d s' c' where
    run: "deque_extend (Some 0) (zip_next nxt count_step) [] (parse path Graph w, count_new)
            = Some (None, d, (s', c'))" and k: "k = c'"
    by (auto simp: count_chunks_def count_chunks_run_unfold count_next_def split: option.splits)
  from deque_zip_returns [OF run, of nxt] obtain n where
    "produces nxt (parse path Graph w) n None s'" "c' = count_new + int n"
    by auto
  with k show ?thesis by (auto simp: count_new_def)
qed

theorem count_chunks_returns_count_witness:
  "count_chunks replay_parse replay_next ''graph.vg'' example_streams = Some (Inr 3) \<and>
   (0::int) \<le> 3 \<and>
   (\<exists>s'. produces replay_next (replay_parse ''graph.vg'' Graph example_streams) (nat 3) None s')"
proof -
  have h: "count_chunks replay_parse replay_next ''graph.vg'' example_streams = Some (Inr 3)"
    using count_chunks_produces [where nxt = replay_next and parse = replay_parse
        and path = "''graph.vg''" and w = example_streams,
        OF ex_graph] by simp
  from count_chunks_returns_count [OF h] h show ?thesis by simp
qed

subsection \<open>Files, handles and repeated calls\<close>

text \<open>
  The claims of this part are about what the decoder does with the file system; they are
  settled on the decoder as the specification describes it, \<open>open_stream\<close>.
\<close>

lemma example_fs_graph:
  "expected tagged_decode example_fs ''graph.vg'' = Inr 3"
  by (simp add: expected_def example_fs_def tagged_decode_def)

lemma example_fs_corrupt:
  "expected tagged_decode example_fs ''corrupt.vg'' = Inl DecodeError"
  by (simp add: expected_def example_fs_def tagged_decode_def)

lemma example_fs_missing: "files example_fs ''missing.vg'' = None"
  by (simp add: example_fs_def)

lemma expected_files:
  "files w' = files w \<Longrightarrow> expected decode w' path = expected decode w path"
  by (simp add: expected_def)

text \<open>
  Claim C5. For every path that does not name an existing readable file,
  \<^verbatim>\<open>count_chunks\<close> raises \<^verbatim>\<open>FileError\<close> and returns no number.
\<close>

theorem count_chunks_missing_file:
  assumes "files w path = None"
  shows "count_chunks open_stream (open_stream_next decode) path w = Some (Inl FileError)"
  using assms by (simp add: count_chunks_def open_stream_run expected_def)

theorem count_chunks_missing_file_witness:
  "files example_fs ''missing.vg'' = None \<and>
   count_chunks open_stream (open_stream_next tagged_decode) ''missing.vg'' example_fs
     = Some (Inl FileError)"
  using count_chunks_missing_file [OF example_fs_missing, of tagged_decode] example_fs_missing
  by simp

text \<open>
  Claim C6. Two calls in succession on the same unmodified file give the same outcome:
  the second call runs in the world the first one left behind, and nothing of the first
  call reaches it (the counter and the stream are made anew in each call).
\<close>

theorem count_chunks_twice:
  "\<exists>r g w'. count_chunks_run open_stream (open_stream_next decode) path w = Some (r, (g, w')) \<and>
     count_chunks open_stream (open_stream_next decode) path w' = Some r"
proof -
  let ?w' = "case files w path of None \<Rightarrow> w | Some frames \<Rightarrow> w\<lparr>opened := opened w + 1\<rparr>"
  have "files ?w' = files w" by (simp split: option.splits)
  then have "expected decode ?w' path = expected decode w path" by (rule expected_files)
  then have "count_chunks open_stream (open_stream_next decode) path ?w'
               = Some (expected decode w path)"
    by (simp add: count_chunks_def open_stream_run)
  with open_stream_run [of decode path w] show ?thesis by blast
qed

theorem count_chunks_twice_witness:
  "count_chunks_run open_stream (open_stream_next tagged_decode) ''graph.vg'' example_fs
     = Some (Inr 3, (Finished, example_fs\<lparr>opened := 1\<rparr>)) \<and>
   count_chunks open_stream (open_stream_next tagged_decode) ''graph.vg'' (example_fs\<lparr>opened := 1\<rparr>)
     = Some (Inr 3)"
proof -
  have run: "count_chunks_run open_stream (open_stream_next tagged_decode) ''graph.vg'' example_fs
     = Some (Inr 3, (Finished, example_fs\<lparr>opened := 1\<rparr>))"
    using open_stream_run [of tagged_decode "''graph.vg''" example_fs] example_fs_graph
    by (simp add: example_fs_def)
  from count_chunks_twice [of tagged_decode "''graph.vg''" example_fs] run
  show ?thesis by simp
qed

text \<open>
  Claim C7. \<^verbatim>\<open>count_chunks\<close> writes nothing and leaves no state behind: on every exit
  path, the clean one and the two error paths, the files are what they were, the stream
  is finished, every handle opened has been released, and one handle has been opened
  in all (none when the path names no readable file).
\<close>

theorem count_chunks_frame:
  "\<exists>r w'. count_chunks_run open_stream (open_stream_next decode) path w = Some (r, (Finished, w')) \<and>
     files w' = files w \<and> open_handles w' = open_handles w \<and>
     opened w' = opened w + (if files w path = None then 0 else 1)"
proof (cases "files w path")
  case None
  with open_stream_run [of decode path w] show ?thesis by simp
next
  case (Some frames)
  with open_stream_run [of decode path w] show ?thesis by simp
qed

theorem count_chunks_frame_witness:
  "count_chunks_run open_stream (open_stream_next tagged_decode) ''corrupt.vg'' example_fs
     = Some (Inl DecodeError, (Finished, example_fs\<lparr>opened := 1\<rparr>)) \<and>
   files (example_fs\<lparr>opened := 1\<rparr>) = files example_fs \<and>
   open_handles (example_fs\<lparr>opened := 1\<rparr>) = open_handles example_fs \<and>
   opened (example_fs\<lparr>opened := 1\<rparr>) = opened example_fs + 1"
proof -
  have run: "count_chunks_run open_stream (open_stream_next tagged_decode) ''corrupt.vg'' example_fs
     = Some (Inl DecodeError, (Finished, example_fs\<lparr>opened := 1\<rparr>))"
    using open_stream_run [of tagged_decode "''corrupt.vg''" example_fs] example_fs_corrupt
    by (simp add: example_fs_def)
  from count_chunks_frame [of tagged_decode "''corrupt.vg''" example_fs] run
  show ?thesis by (simp add: example_fs_def)
qed

subsection \<open>What the drain retains\<close>

text \<open>
  An unbounded deque would hold every pair the zipped iterator produces: the bound 0 is
  what keeps the drain from collecting the records.
\<close>

lemma deque_unbounded_retains:
  "produces nxt s n r s' \<Longrightarrow>
   \<exists>d'. deque_extend None (zip_next nxt count_step) d (s, c) = Some (r, d', (s', c + int n)) \<and>
        length d' = length d + n"
proof (induction arbitrary: c d rule: produces.induct)
  case (produces_stop s s')
  then show ?case
    by (subst deque_extend.simps) (simp add: zip_count_stop)
next
  case (produces_raise s e s')
  then show ?case
    by (subst deque_extend.simps) (simp add: zip_count_raise)
next
  case (produces_yield s a s' n r s'')
  have "deque_extend None (zip_next nxt count_step) d (s, c) =
        deque_extend None (zip_next nxt count_step) (d @ [(a, c)]) (s', c + 1)"
    using produces_yield.hyps(1)
    by (subst deque_extend.simps) (simp add: zip_count_yield deque_append_def)
  then show ?case
    using produces_yield.IH [of "d @ [(a, c)]" "c + 1"] by (simp add: add.assoc)
qed



text \<open>
  The order of the arguments of \<^verbatim>\<open>zip\<close> matters: with the counter first, the call of
  \<^verbatim>\<open>zip.__next__\<close> that finds the stream exhausted has already advanced the counter, and
  the counter ends one too far.
\<close>

lemma zip_count_first_overcounts:
  assumes "produces nxt s n None s'"
  shows "deque_extend (Some 0) (zip_next count_step nxt) [] (count_new, s)
           = Some (None, [], (int n + 1, s'))"
  using zip_count_first_aux [OF assms refl, of count_new] by (simp add: count_new_def)

text \<open>
  Claim C10. With the counter as the second argument of \<^verbatim>\<open>zip\<close>, the drain in
  \<^verbatim>\<open>count_chunks\<close> advances the counter exactly once per element of the stream and not
  once more when the stream ends: after the drain \<^verbatim>\<open>cnt\<close> stands at the number of
  elements produced, so \<^verbatim>\<open>next(cnt)\<close> returns that number and the function returns it,
  with no off-by-one.
\<close>

theorem count_chunks_counter_exact:
  assumes "produces nxt (parse path Graph w) n r s'"
  shows "\<exists>x. count_chunks_body parse nxt path w = Some x \<and> cnt_drained x = int n \<and>
             outcome x = (case r of None \<Rightarrow> Inr (int n) | Some e \<Rightarrow> Inl e) \<and>
             count_chunks parse nxt path w = Some (outcome x)"
  using count_chunks_body_produces [of nxt parse path w n r s'] assms
  by (simp add: count_chunks_def count_chunks_run_def)

theorem count_chunks_counter_exact_witness:
  "produces replay_next (replay_parse ''graph.vg'' Graph example_streams) 3 None [] \<and>
   count_chunks_body replay_parse replay_next ''graph.vg'' example_streams
     = Some \<lparr>outcome = Inr 3, deque_left = [], cnt_drained = 3, stream_left = []\<rparr> \<and>
   count_chunks replay_parse replay_next ''graph.vg'' example_streams = Some (Inr 3) \<and>
   produces replay_next (replay_parse ''corrupt.vg'' Graph example_streams) 2 (Some DecodeError) [] \<and>
   (\<exists>x. count_chunks_body replay_parse replay_next ''corrupt.vg'' example_streams = Some x \<and>
        cnt_drained x = 2 \<and> outcome x = Inl DecodeError)"
proof -
  have body: "count_chunks_body replay_parse replay_next ''graph.vg'' example_streams
     = Some \<lparr>outcome = Inr 3, deque_left = [], cnt_drained = 3, stream_left = []\<rparr>"
    using count_chunks_body_produces [where nxt = replay_next and parse = replay_parse
        and path = "''graph.vg''" and w = example_streams, OF ex_graph]
    by simp
  from count_chunks_counter_exact [where nxt = replay_next and parse = replay_parse
      and path = "''graph.vg''" and w = example_streams, OF ex_graph]
    count_chunks_counter_exact [where nxt = replay_next and parse = replay_parse
      and path = "''corrupt.vg''" and w = example_streams, OF ex_corrupt]
    body ex_graph ex_corrupt
  show ?thesis by auto
qed

end
